theory Spec2Isabelle
  imports Complex_Main "HOL-Library.AList" "HOL-Library.Multiset"
begin

section \<open>Python values, dictionaries and exceptions\<close>

text \<open>
  The repository is a set of Jupyter notebooks. The values they handle are parsed JSON
  documents (\<^verbatim>\<open>json.load\<close>) and dictionaries built from them. A Python value is a
  \<open>json\<close>; a dictionary is an association list with distinct keys, in insertion
  order; \<^verbatim>\<open>None\<close> is \<open>JNull\<close>. A finite Python float is a rational.
\<close>

datatype json = JNull | JBool bool | JInt int | JFloat rat | JStr string
  | JArr "json list" | JObj "(string \<times> json) list"

type_synonym dict = "(string \<times> json) list"

text \<open>The exceptions the modelled statements can raise.\<close>

datatype error = AttributeError | KeyError | ValueError | IndexError | NameError | TypeError

text \<open>
  \<^verbatim>\<open>d.get(key)\<close>: the value under the key, \<^verbatim>\<open>None\<close> when the key is absent. Only a
  dictionary has the method: on \<^verbatim>\<open>None\<close>, a string, a number or a list the attribute
  lookup raises \<^verbatim>\<open>AttributeError\<close>.
\<close>

definition dict_get :: "dict \<Rightarrow> string \<Rightarrow> json" where
  "dict_get d k = (case map_of d k of Some v \<Rightarrow> v | None \<Rightarrow> JNull)"

fun py_get :: "json \<Rightarrow> string \<Rightarrow> error + json" where
  "py_get (JObj d) k = Inr (dict_get d k)"
| "py_get _ k = Inl AttributeError"

text \<open>\<^verbatim>\<open>a.get(k1).get(k2)\<close>: the second call happens only when the first returned.\<close>

definition then_get :: "error + json \<Rightarrow> string \<Rightarrow> error + json" where
  "then_get r k = (case r of Inl e \<Rightarrow> Inl e | Inr v \<Rightarrow> py_get v k)"

text \<open>\<^verbatim>\<open>d[key]\<close> on a dictionary raises \<^verbatim>\<open>KeyError\<close> when the key is absent.\<close>

definition dict_item :: "dict \<Rightarrow> string \<Rightarrow> error + json" where
  "dict_item d k = (case map_of d k of Some v \<Rightarrow> Inr v | None \<Rightarrow> Inl KeyError)"

section \<open>Chunked upload\<close>

text \<open>
  \<^verbatim>\<open>range(0, stop, step)\<close> for a length \<open>stop\<close>: a zero step raises
  \<^verbatim>\<open>ValueError\<close>, a negative step gives the empty range, a positive step gives
  \<open>0, step, 2 * step, \<dots>\<close> below \<open>stop\<close>.
\<close>

definition range0 :: "nat \<Rightarrow> int \<Rightarrow> error + nat list" where
  "range0 stop step =
     (if step = 0 then Inl ValueError
      else if step < 0 then Inr []
      else Inr (map (\<lambda>i. i * nat step) [0 ..< (stop + nat step - 1) div nat step]))"

text \<open>\<^verbatim>\<open>xs[i:j]\<close> for \<open>0 \<le> i \<le> j\<close>: the slice is cut at the end of the list.\<close>

definition slice :: "'a list \<Rightarrow> nat \<Rightarrow> nat \<Rightarrow> 'a list" where
  "slice xs i j = take (j - i) (drop i xs)"

text \<open>
  \<^verbatim>\<open>upload_chunks = [feature_lst[idx: idx + chunk_size]
                    for idx in range(0, len(feature_lst), chunk_size)]\<close>
  The notebook fixes \<^verbatim>\<open>chunk_size = 200\<close>; here it is an argument.
\<close>

definition upload_chunks :: "int \<Rightarrow> 'a list \<Rightarrow> error + 'a list list" where
  "upload_chunks chunk_size feature_lst =
     (case range0 (length feature_lst) chunk_size of
        Inl e \<Rightarrow> Inl e
      | Inr idxs \<Rightarrow> Inr (map (\<lambda>idx. slice feature_lst idx (idx + nat chunk_size)) idxs))"

text \<open>The number of indices in the range: \<open>n / c\<close> rounded up.\<close>

definition n_chunks :: "nat \<Rightarrow> nat \<Rightarrow> nat" where
  "n_chunks n c = (n + c - 1) div c"

section \<open>The table of string lengths\<close>

text \<open>
  \<^verbatim>\<open>dict_lst = [{k: len(v) if isinstance(v, str) else None
               for k, v in Reach.from_aw_json(reach_json).attributes.items()}
              for reach_json in raw_json_lst]\<close>
  The attribute dictionaries of the reaches are the input (the class \<^verbatim>\<open>Reach\<close> is
  imported from the package); lengths count the characters of the string.
\<close>

definition str_len :: "json \<Rightarrow> nat option" where
  "str_len v = (case v of JStr s \<Rightarrow> Some (length s) | _ \<Rightarrow> None)"

definition dict_lst :: "dict list \<Rightarrow> (string \<times> nat option) list list" where
  "dict_lst attributes_lst =
     map (\<lambda>attributes. map (\<lambda>(k, v). (k, str_len v)) attributes) attributes_lst"

text \<open>
  \<^verbatim>\<open>pd.DataFrame.from_records(dict_lst).max().dropna()\<close>: one column per key; a record
  without the key, or with \<^verbatim>\<open>None\<close> under it, leaves the cell empty; \<open>max\<close> skips
  the empty cells; \<open>dropna\<close> removes the columns that have no value at all.
  \<open>column\<close> lists the values of the non-empty cells of a column, in record order.
\<close>

definition column :: "(string \<times> nat option) list list \<Rightarrow> string \<Rightarrow> nat list" where
  "column recs k = concat (map (\<lambda>r. case map_of r k of Some (Some n) \<Rightarrow> [n] | _ \<Rightarrow> []) recs)"

fun col_max :: "nat list \<Rightarrow> nat option" where
  "col_max [] = None"
| "col_max (n # ns) = Some (fold max ns n)"

text \<open>
  \<^verbatim>\<open>math.ceil(val * 1.1)\<close> multiplies in double precision. The literal \<^verbatim>\<open>1.1\<close> is
  the double \<open>4953959590107546 / 2 ^ 52\<close>. The integer \<open>val\<close> is converted to a double
  (rounded to 53 significant bits, ties to even), the exact product is rounded the same
  way, and the ceiling of the result is taken. Products are kept as numerators over
  \<open>2 ^ 52\<close>. String lengths are below \<open>2 ^ 63\<close>, far from the overflow of a double.
\<close>

fun bit_length :: "nat \<Rightarrow> nat" where
  "bit_length n = (if n = 0 then 0 else Suc (bit_length (n div 2)))"

definition round53 :: "nat \<Rightarrow> nat" where
  "round53 m =
     (if bit_length m \<le> 53 then m
      else let s = bit_length m - 53; q = m div 2 ^ s; r = m mod 2 ^ s; half = 2 ^ (s - 1)
           in (if r < half \<or> (r = half \<and> even q) then q else q + 1) * 2 ^ s)"

definition float_1_1 :: nat where
  "float_1_1 = 4953959590107546"

definition mul_1_1 :: "nat \<Rightarrow> nat" where
  "mul_1_1 val = round53 (round53 val * float_1_1)"

definition math_ceil :: "nat \<Rightarrow> nat" where
  "math_ceil x = (x + 2 ^ 52 - 1) div 2 ^ 52"

definition headroom :: "nat \<Rightarrow> nat" where
  "headroom val = math_ceil (mul_1_1 val)"

text \<open>
  \<^verbatim>\<open>len_dict = pd.DataFrame.from_records(dict_lst).max().dropna().astype(int)
               .apply(lambda val: math.ceil(val * 1.1)).astype(int).to_dict()\<close>
  The resulting dictionary, as a map from the field name to the length.
\<close>

definition len_dict :: "dict list \<Rightarrow> string \<Rightarrow> nat option" where
  "len_dict attributes_lst k = map_option headroom (col_max (column (dict_lst attributes_lst) k))"

text \<open>
  The specification's reading of the same table: the string lengths observed for a field
  in the whole collection, and ten percent more than a length, rounded up, in exact
  arithmetic.
\<close>

definition observed_lengths :: "dict list \<Rightarrow> string \<Rightarrow> nat set" where
  "observed_lengths attributes_lst k =
     {length s | attributes s. attributes \<in> set attributes_lst \<and> map_of attributes k = Some (JStr s)}"

definition exact_headroom :: "nat \<Rightarrow> nat" where
  "exact_headroom n = (11 * n + 9) div 10"

section \<open>The schema's field list\<close>

text \<open>
  \<^verbatim>\<open>len_dict.get(fld['name'])\<close>: the keys of \<open>len_dict\<close> are strings, so another
  hashable name finds nothing, and a list or a dictionary is unhashable.
\<close>

definition len_dict_get :: "(string \<Rightarrow> nat option) \<Rightarrow> json \<Rightarrow> error + nat option" where
  "len_dict_get ld key =
     (case key of JStr s \<Rightarrow> Inr (ld s)
      | JArr _ \<Rightarrow> Inl TypeError
      | JObj _ \<Rightarrow> Inl TypeError
      | _ \<Rightarrow> Inr None)"

text \<open>
  \<^verbatim>\<open>def add_fld_meta(fld: dict, nullable: bool = True, editable: bool = True) -> dict:
      fld_len = len_dict.get(fld['name'])
      if fld_len is not None:
          fld['length'] = fld_len
      return fld\<close>
  The arguments \<open>nullable\<close> and \<open>editable\<close> are not used by the body. The assignment
  replaces the value of an existing key in place and appends a new key otherwise.
\<close>

definition add_fld_meta :: "(string \<Rightarrow> nat option) \<Rightarrow> dict \<Rightarrow> error + dict" where
  "add_fld_meta ld fld =
     (case dict_item fld ''name'' of
        Inl e \<Rightarrow> Inl e
      | Inr nm \<Rightarrow>
          (case len_dict_get ld nm of
             Inl e \<Rightarrow> Inl e
           | Inr None \<Rightarrow> Inr fld
           | Inr (Some fld_len) \<Rightarrow> Inr (AList.update ''length'' (JInt (int fld_len)) fld)))"




section \<open>The extraction cells\<close>

text \<open>
  The notebook that reads a downloaded document runs its cells on the notebook's global
  namespace: a statement \<^verbatim>\<open>x = e\<close> evaluates \<open>e\<close> in the namespace and binds
  \<open>x\<close>; an exception ends the run, and the bindings made before it stay. Reading an
  unbound name raises \<^verbatim>\<open>NameError\<close>.
\<close>

type_synonym namespace = "string \<Rightarrow> json option"

type_synonym stmt = "namespace \<Rightarrow> error + namespace"

definition var :: "namespace \<Rightarrow> string \<Rightarrow> error + json" where
  "var ns x = (case ns x of None \<Rightarrow> Inl NameError | Some v \<Rightarrow> Inr v)"

definition assign :: "string \<Rightarrow> (namespace \<Rightarrow> error + json) \<Rightarrow> stmt" where
  "assign x rhs ns = (case rhs ns of Inl e \<Rightarrow> Inl e | Inr v \<Rightarrow> Inr (ns(x \<mapsto> v)))"

fun run :: "stmt list \<Rightarrow> namespace \<Rightarrow> error option \<times> namespace" where
  "run [] ns = (None, ns)"
| "run (s # ss) ns = (case s ns of Inl e \<Rightarrow> (Some e, ns) | Inr ns' \<Rightarrow> run ss ns')"

text \<open>
  \<^verbatim>\<open>json_info = aw_json.get('CContainerViewJSON_view')
                     .get('CRiverMainGadgetJSON_main').get('info')\<close>
\<close>

definition json_info :: "json \<Rightarrow> error + json" where
  "json_info aw_json =
     then_get (then_get (py_get aw_json ''CContainerViewJSON_view'')
       ''CRiverMainGadgetJSON_main'') ''info''"

text \<open>
  The cell that loads the document and reads the descriptive fields:
  \<^verbatim>\<open>aw_json = json.load(json_fl)
  json_info = ...
  reach_id = json_info.get('id')
  river = json_info.get('river')
  name = json_info.get('section')
  description = json_info.get('description_md')\<close>
  The parsed document is the argument.
\<close>

definition info_cell :: "json \<Rightarrow> stmt list" where
  "info_cell doc =
     [assign ''aw_json'' (\<lambda>ns. Inr doc),
      assign ''json_info''
        (\<lambda>ns. case var ns ''aw_json'' of Inl e \<Rightarrow> Inl e | Inr aw_json \<Rightarrow> json_info aw_json),
      assign ''reach_id'' (\<lambda>ns. then_get (var ns ''json_info'') ''id''),
      assign ''river'' (\<lambda>ns. then_get (var ns ''json_info'') ''river''),
      assign ''name'' (\<lambda>ns. then_get (var ns ''json_info'') ''section''),
      assign ''description'' (\<lambda>ns. then_get (var ns ''json_info'') ''description_md'')]"

text \<open>\<^verbatim>\<open>geojson = json_info.get('geom')\<close>\<close>

definition geojson_cell :: "stmt list" where
  "geojson_cell = [assign ''geojson'' (\<lambda>ns. then_get (var ns ''json_info'') ''geom'')]"

text \<open>
  \<^verbatim>\<open>geometry = Geometry(geojson)\<close>. The constructor belongs to the GIS library; it
  is an argument of the model, a function from the value it is given to the geometry
  (a dictionary) or to the exception it raises.
\<close>

definition geometry_cell :: "(json \<Rightarrow> error + json) \<Rightarrow> stmt list" where
  "geometry_cell Geometry =
     [assign ''geometry''
        (\<lambda>ns. case var ns ''geojson'' of Inl e \<Rightarrow> Inl e | Inr geojson \<Rightarrow> Geometry geojson)]"

text \<open>The three cells in the order of the notebook.\<close>

definition extract_cells :: "(json \<Rightarrow> error + json) \<Rightarrow> json \<Rightarrow> stmt list" where
  "extract_cells Geometry doc = info_cell doc @ geojson_cell @ geometry_cell Geometry"

text \<open>The names that hold the values of the record.\<close>

definition record_names :: "string set" where
  "record_names = {''reach_id'', ''river'', ''name'', ''description'', ''geojson'', ''geometry''}"

text \<open>
  Modelled from the spec: the flat attribute mapping of a reach. The class
  \<^verbatim>\<open>Reach\<close>, whose \<^verbatim>\<open>from_aw_json\<close> builds the mapping, is not among the
  notebooks, which only call it. The specification: the mapping holds every descriptive
  field (identifier, river, section, free-text description), keyed by a stable field
  name, with the values passed through unmodified. The keys are those of the
  specification's round-trip example; the values are the four the cell \<open>info_cell\<close>
  binds.
\<close>

definition attributes :: "json \<Rightarrow> json \<Rightarrow> json \<Rightarrow> json \<Rightarrow> dict" where
  "attributes reach_id river name description =
     [(''reach_id'', reach_id), (''river'', river), (''section'', name),
      (''description'', description)]"

section \<open>Batching: proofs\<close>

declare bit_length.simps [simp del]

lemma concat_slices:
  "concat (map (\<lambda>i. take c (drop (i * c) xs)) [0..<k]) = take (k * c) xs"
proof (induction k)
  case 0
  show ?case by simp
next
  case (Suc k)
  have "take (k * c) xs @ take c (drop (k * c) xs) = take (k * c + c) xs"
    by (simp add: take_add)
  with Suc show ?case by (simp add: add.commute)
qed

lemma n_chunks_cover:
  assumes "0 < c"
  shows "n \<le> n_chunks n c * c"
proof -
  have "(n + c - 1) mod c < c" using assms by simp
  moreover have "n_chunks n c * c + (n + c - 1) mod c = n + c - 1"
    by (simp add: n_chunks_def)
  ultimately show ?thesis by linarith
qed

lemma n_chunks_tight:
  assumes "0 < c" and "i < n_chunks n c"
  shows "i * c < n"
proof -
  have "n_chunks n c * c \<le> n + c - 1"
    by (simp add: n_chunks_def)
  moreover have "(i + 1) * c \<le> n_chunks n c * c"
    using assms(2) by (intro mult_le_mono1) simp
  ultimately have "i * c + c \<le> n + c - 1" by simp
  with assms(1) show ?thesis by linarith
qed

lemma n_chunks_zero: "n_chunks 0 c = 0"
  by (cases "c = 0") (simp_all add: n_chunks_def)

lemma n_chunks_ceiling:
  assumes "0 < c"
  shows "int (n_chunks n c) = \<lceil>real n / real c\<rceil>"
proof -
  let ?k = "n_chunks n c"
  have up: "n \<le> ?k * c" using assms by (rule n_chunks_cover)
  have "real n \<le> real (?k * c)" using up by (simp only: of_nat_le_iff)
  then have le: "real n / real c \<le> real ?k"
    using assms by (simp add: field_simps)
  have gt: "real ?k - 1 < real n / real c"
  proof (cases "?k = 0")
    case True
    have "0 \<le> real n / real c" by simp
    then have "- 1 < real n / real c" by linarith
    with True show ?thesis by simp
  next
    case False
    then have "(?k - 1) * c < n" using assms by (intro n_chunks_tight) simp_all
    then have "real ((?k - 1) * c) < real n" by (simp only: of_nat_less_iff)
    moreover have "real (?k - 1) = real ?k - 1" using False by simp
    ultimately show ?thesis using assms by (simp add: field_simps)
  qed
  have "\<lceil>real n / real c\<rceil> = int ?k"
    by (rule ceiling_unique) (use le gt in simp_all)
  then show ?thesis by simp
qed

lemma upload_chunks_pos:
  assumes "0 < c"
  shows "upload_chunks c xs =
           Inr (map (\<lambda>i. take (nat c) (drop (i * nat c) xs)) [0 ..< n_chunks (length xs) (nat c)])"
  using assms by (simp add: upload_chunks_def range0_def slice_def n_chunks_def comp_def)

lemma chunk_length:
  assumes "0 < c" and "i < n_chunks (length xs) c"
  shows "length (take c (drop (i * c) xs)) = min c (length xs - i * c)"
    and "0 < length (take c (drop (i * c) xs))"
  using n_chunks_tight[OF assms] assms(1) by simp_all

lemma chunk_full:
  assumes "0 < c" and "Suc i < n_chunks (length xs) c"
  shows "length (take c (drop (i * c) xs)) = c"
proof -
  have "Suc i * c < length xs" using assms by (rule n_chunks_tight)
  then show ?thesis by simp
qed

text \<open>
  Claim C4. For a positive chunk size the batching returns, and its batches are the
  consecutive slices of the record list: batch \<open>i\<close> holds the records from position
  \<open>i * chunk_size\<close> on, every batch but the last has exactly \<open>chunk_size\<close> records,
  the last one has between one and \<open>chunk_size\<close>, and the batches concatenated in order
  give the record list back. 450 records in chunks of 200 give batches of 200, 200 and 50.
\<close>

theorem upload_chunks_partition:
  assumes "0 < chunk_size"
  shows "\<exists>chunks. upload_chunks chunk_size records = Inr chunks
      \<and> concat chunks = records
      \<and> (\<forall>i < length chunks.
            chunks ! i = take (nat chunk_size) (drop (i * nat chunk_size) records))
      \<and> (\<forall>i. Suc i < length chunks \<longrightarrow> length (chunks ! i) = nat chunk_size)
      \<and> (chunks \<noteq> [] \<longrightarrow> 0 < length (last chunks) \<and> length (last chunks) \<le> nat chunk_size)
      \<and> (chunk_size = 200 \<and> length records = 450 \<longrightarrow> map length chunks = [200, 200, 50])"
proof -
  define c where "c = nat chunk_size"
  define k where "k = n_chunks (length records) c"
  define chunks where "chunks = map (\<lambda>i. take c (drop (i * c) records)) [0 ..< k]"
  have c: "0 < c" using assms by (simp add: c_def)
  have run: "upload_chunks chunk_size records = Inr chunks"
    using upload_chunks_pos[OF assms, of records] by (simp add: chunks_def k_def c_def)
  have len: "length chunks = k" by (simp add: chunks_def)
  have nth: "chunks ! i = take c (drop (i * c) records)" if "i < k" for i
    using that by (simp add: chunks_def)
  have "length records \<le> k * c" unfolding k_def using c by (rule n_chunks_cover)
  then have cat: "concat chunks = records"
    by (simp add: chunks_def concat_slices)
  have full: "length (chunks ! i) = c" if "Suc i < k" for i
  proof -
    from that have "i < k" by simp
    then show ?thesis using chunk_full[OF c, of i records] that by (simp add: nth k_def)
  qed
  have lst: "0 < length (last chunks) \<and> length (last chunks) \<le> c" if "chunks \<noteq> []"
  proof -
    from that have k: "0 < k" using len by (cases k) auto
    then have "last chunks = chunks ! (k - 1)" using that len by (simp add: last_conv_nth)
    also have "\<dots> = take c (drop ((k - 1) * c) records)" using k by (simp add: nth)
    finally show ?thesis using chunk_length(2)[OF c, of "k - 1" records] k by (simp add: k_def)
  qed
  have ex: "map length chunks = [200, 200, 50]" if "chunk_size = 200" "length records = 450"
  proof -
    have "c = 200" using that by (simp add: c_def)
    moreover have "k = 3" using that by (simp add: k_def c_def n_chunks_def)
    moreover have "[0..<3] = [0, 1, 2::nat]" by (simp add: upt_rec)
    ultimately show ?thesis using that by (simp add: chunks_def)
  qed
  show ?thesis
    using run cat nth full lst ex by (auto simp: len c_def)
qed

theorem upload_chunks_partition_witness:
  "\<exists>chunks. upload_chunks 200 (replicate 450 CHR ''r'') = Inr chunks
      \<and> concat chunks = replicate 450 CHR ''r''
      \<and> length (chunks ! 0) = 200
      \<and> chunks \<noteq> [] \<and> length (last chunks) = 50
      \<and> map length chunks = [200, 200, 50]"
proof -
  have pos: "(0::int) < 200" by simp
  from upload_chunks_partition[OF pos, of "replicate 450 CHR ''r''"]
  obtain chunks where run: "upload_chunks 200 (replicate 450 CHR ''r'') = Inr chunks"
    and cat: "concat chunks = replicate 450 CHR ''r''"
    and full: "\<forall>i. Suc i < length chunks \<longrightarrow> length (chunks ! i) = nat 200"
    and ex: "200 = (200::int) \<and> length (replicate 450 CHR ''r'') = 450
               \<longrightarrow> map length chunks = [200, 200, 50]"
    by (elim exE conjE) (rule that)
  from ex have ml: "map length chunks = [200, 200, 50]" by simp
  have "length (map length chunks) = 3" by (simp only: ml) simp
  then have len: "length chunks = 3" by simp
  then have ne: "chunks \<noteq> []" by auto
  have "last (map length chunks) = 50" by (simp only: ml) simp
  then have lst: "length (last chunks) = 50" using ne by (simp add: last_map)
  from full len have f0: "length (chunks ! 0) = 200" by simp
  show ?thesis
    by (intro exI[of _ chunks] conjI) (fact run cat f0 ne lst ml)+
qed

text \<open>
  Claim C10. For a record list of length \<open>n\<close> and a positive chunk size the batching
  returns exactly \<open>\<lceil>n / chunk_size\<rceil>\<close> batches, none of them empty; the empty record
  list gives no batch; and the batches concatenated in order are the record list.
\<close>

theorem upload_chunks_count:
  assumes "0 < chunk_size"
  shows "\<exists>chunks. upload_chunks chunk_size records = Inr chunks
      \<and> int (length chunks) = \<lceil>real (length records) / real_of_int chunk_size\<rceil>
      \<and> [] \<notin> set chunks
      \<and> (records = [] \<longrightarrow> chunks = [])
      \<and> concat chunks = records"
proof -
  define c where "c = nat chunk_size"
  define k where "k = n_chunks (length records) c"
  define chunks where "chunks = map (\<lambda>i. take c (drop (i * c) records)) [0 ..< k]"
  have c: "0 < c" using assms by (simp add: c_def)
  have rc: "real_of_int chunk_size = real c" using assms by (simp add: c_def)
  have run: "upload_chunks chunk_size records = Inr chunks"
    using upload_chunks_pos[OF assms, of records] by (simp add: chunks_def k_def c_def)
  have len: "int (length chunks) = \<lceil>real (length records) / real_of_int chunk_size\<rceil>"
    using n_chunks_ceiling[OF c, of "length records"] by (simp add: chunks_def k_def rc)
  have ne: "[] \<notin> set chunks"
  proof
    assume "[] \<in> set chunks"
    then obtain i where "i < k" and "take c (drop (i * c) records) = []"
      by (auto simp: chunks_def)
    with chunk_length(2)[OF c, of i records] show False by (simp add: k_def)
  qed
  have emp: "chunks = []" if "records = []"
    using that by (simp add: chunks_def k_def n_chunks_zero)
  have "length records \<le> k * c" unfolding k_def using c by (rule n_chunks_cover)
  then have cat: "concat chunks = records"
    by (simp add: chunks_def concat_slices)
  show ?thesis using run len ne emp cat by blast
qed

theorem upload_chunks_count_witness:
  "upload_chunks 3 [] = (Inr [] :: error + nat list list)
   \<and> (\<exists>chunks. upload_chunks 3 ''abcdefg'' = Inr chunks
        \<and> length chunks = 3 \<and> [] \<notin> set chunks \<and> concat chunks = ''abcdefg'')"
proof -
  have pos: "(0::int) < 3" by simp
  from upload_chunks_count[OF pos, of "[] :: nat list"]
  have e: "upload_chunks 3 [] = (Inr [] :: error + nat list list)" by auto
  from upload_chunks_count[OF pos, of "''abcdefg''"]
  obtain chunks where run: "upload_chunks 3 ''abcdefg'' = Inr chunks"
    and len: "int (length chunks) = \<lceil>real (length ''abcdefg'') / real_of_int 3\<rceil>"
    and ne: "[] \<notin> set chunks" and cat: "concat chunks = ''abcdefg''"
    by (elim exE conjE) (rule that)
  have "\<lceil>real (length ''abcdefg'') / real_of_int 3\<rceil> = 3" by (simp add: ceiling_eq_iff)
  with len have "length chunks = 3" by simp
  then show ?thesis using e run ne cat by (intro conjI exI[of _ chunks]) simp_all
qed

section \<open>The length table: proofs\<close>


lemma bit_length_bounds:
  "0 < m \<Longrightarrow> 2 ^ (bit_length m - 1) \<le> m \<and> m < 2 ^ bit_length m"
proof (induction m rule: bit_length.induct)
  case (1 n)
  show ?case
  proof (cases "n div 2 = 0")
    case True
    with "1.prems" have "n = 1" by (simp add: div_eq_0_iff) 
    then show ?thesis by (simp add: bit_length.simps)
  next
    case False
    with "1.IH" "1.prems" have ih: "2 ^ (bit_length (n div 2) - 1) \<le> n div 2"
      "n div 2 < 2 ^ bit_length (n div 2)" by simp_all
    have pos: "0 < bit_length (n div 2)" using False by (subst bit_length.simps) simp
    have bl: "bit_length n = Suc (bit_length (n div 2))"
      using "1.prems" by (subst bit_length.simps) simp
    have "2 * 2 ^ (bit_length (n div 2) - 1) \<le> n" using ih(1) by linarith
    moreover have "2 * 2 ^ (bit_length (n div 2) - 1) = (2::nat) ^ bit_length (n div 2)"
      using pos by (cases "bit_length (n div 2)") simp_all
    moreover have "n < 2 * 2 ^ bit_length (n div 2)" using ih(2) by linarith
    ultimately show ?thesis by (simp add: bl)
  qed
qed

lemma bit_length_small: "m < 2 ^ k \<Longrightarrow> bit_length m \<le> k"
proof (rule ccontr)
  assume m: "m < 2 ^ k" and "\<not> bit_length m \<le> k"
  then have k: "k \<le> bit_length m - 1" and "bit_length m \<noteq> 0" by simp_all
  then have "0 < m" by (cases "m = 0") (simp_all add: bit_length.simps)
  then have "2 ^ (bit_length m - 1) \<le> m" using bit_length_bounds by blast
  moreover have "(2::nat) ^ k \<le> 2 ^ (bit_length m - 1)" using k by (rule power_increasing) simp
  ultimately show False using m by linarith
qed

text \<open>Rounding to 53 bits moves a value by at most one part in \<open>2 ^ 53\<close>.\<close>

lemma round53_error:
  "m * 2 ^ 53 \<le> round53 m * 2 ^ 53 + m" (is ?lower)
  "round53 m * 2 ^ 53 \<le> m * 2 ^ 53 + m" (is ?upper)
proof -
  have "?lower \<and> ?upper"
  proof (cases "bit_length m \<le> 53")
    case True
    then show ?thesis by (simp add: round53_def)
  next
    case False
    define s where "s = bit_length m - 53"
    define h :: nat where "h = 2 ^ (s - 1)"
    define q where "q = m div 2 ^ s"
    define r where "r = m mod 2 ^ s"
    have s: "0 < s" "bit_length m - 1 = s - 1 + 53" using False by (simp_all add: s_def)
    have two_h: "2 ^ s = 2 * h" using s(1) by (cases s) (simp_all add: h_def)
    have "0 < m" using False by (cases "m = 0") (simp_all add: bit_length.simps)
    then have "2 ^ (bit_length m - 1) \<le> m" using bit_length_bounds by blast
    then have big: "h * 2 ^ 53 \<le> m" by (simp only: s(2) h_def power_add)
    have "m = q * 2 ^ s + r" by (simp only: q_def r_def div_mult_mod_eq)
    then have m: "m = q * (2 * h) + r" by (simp only: two_h)
    have "r < 2 ^ s" by (simp add: r_def)
    then have r: "r < 2 * h" by (simp only: two_h)
    have "round53 m = (if r < h \<or> (r = h \<and> even q) then q else q + 1) * 2 ^ s"
      using False by (simp only: round53_def Let_def s_def q_def r_def h_def if_False)
    then have res: "round53 m = (if r < h \<or> (r = h \<and> even q) then q else q + 1) * (2 * h)"
      by (simp only: two_h)
    show ?thesis
    proof (cases "r < h \<or> (r = h \<and> even q)")
      case True
      then have rh: "r \<le> h" by auto
      then have "r * 2 ^ 53 \<le> h * 2 ^ 53" by (rule mult_le_mono1)
      with big have rm: "r * 2 ^ 53 \<le> m" by linarith
      have eq: "round53 m = q * (2 * h)" using True res by simp
      have "m * 2 ^ 53 = q * (2 * h) * 2 ^ 53 + r * 2 ^ 53"
        by (subst m) (simp add: algebra_simps)
      with rm have "m * 2 ^ 53 \<le> round53 m * 2 ^ 53 + m" by (simp add: eq)
      moreover have "round53 m \<le> m" using m eq by linarith
      then have "round53 m * 2 ^ 53 \<le> m * 2 ^ 53" by (rule mult_le_mono1)
      ultimately show ?thesis by linarith
    next
      case False
      then have rh: "h \<le> r" by auto
      define d where "d = 2 * h - r"
      have d: "d \<le> h" "r + d = 2 * h" using rh r by (simp_all add: d_def)
      have "round53 m = (q + 1) * (2 * h)" using False res by (simp only: if_False)
      then have "round53 m = q * (2 * h) + 2 * h" by (simp add: algebra_simps)
      then have eq: "round53 m = m + d" using m d(2) by linarith
      have "d * 2 ^ 53 \<le> h * 2 ^ 53" using d(1) by (rule mult_le_mono1)
      with big have "d * 2 ^ 53 \<le> m" by linarith
      then show ?thesis by (simp add: eq algebra_simps)
    qed
  qed
  then show ?lower and ?upper by simp_all
qed

lemma math_ceil_bounds:
  "x \<le> math_ceil x * 2 ^ 52" "math_ceil x * 2 ^ 52 < x + 2 ^ 52"
proof -
  define y where "y = x + 2 ^ 52 - 1"
  have y: "y + 1 = x + 2 ^ 52" by (simp add: y_def)
  have "y mod 2 ^ 52 < 2 ^ 52" by simp
  moreover have "math_ceil x * 2 ^ 52 + y mod 2 ^ 52 = y"
    by (simp add: math_ceil_def y_def)
  ultimately show "x \<le> math_ceil x * 2 ^ 52" "math_ceil x * 2 ^ 52 < x + 2 ^ 52"
    using y by linarith+
qed

lemma headroom_ge: "n \<le> headroom n"
proof -
  define a where "a = round53 n"
  define b where "b = round53 (a * 4953959590107546)"
  have 1: "n * 2 ^ 53 \<le> a * 2 ^ 53 + n"
    unfolding a_def by (rule round53_error)
  have 2: "(a * 4953959590107546) * 2 ^ 53 \<le> b * 2 ^ 53 + a * 4953959590107546"
    unfolding b_def by (rule round53_error)
  have 3: "b \<le> headroom n * 2 ^ 52"
    unfolding headroom_def mul_1_1_def float_1_1_def b_def a_def by (rule math_ceil_bounds)
  show ?thesis using 1 2 3 by simp
qed

lemma headroom_exact:
  assumes "n < 2 ^ 51"
  shows "exact_headroom n \<le> headroom n" "headroom n \<le> exact_headroom n + 1"
proof -
  define b where "b = round53 (n * 4953959590107546)"
  have "bit_length n \<le> 53"
    by (rule bit_length_small) (use assms in simp)
  then have a: "round53 n = n" by (simp add: round53_def)
  have 1: "(n * 4953959590107546) * 2 ^ 53 \<le> b * 2 ^ 53 + n * 4953959590107546"
    and 2: "b * 2 ^ 53 \<le> (n * 4953959590107546) * 2 ^ 53 + n * 4953959590107546"
    unfolding b_def by (rule round53_error)+
  have h: "headroom n = math_ceil b"
    by (simp add: headroom_def mul_1_1_def float_1_1_def b_def a)
  have 3: "b \<le> headroom n * 2 ^ 52" and 4: "headroom n * 2 ^ 52 < b + 2 ^ 52"
    unfolding h by (rule math_ceil_bounds)+
  define e where "e = exact_headroom n"
  have "(11 * n + 9) mod 10 < 10" by simp
  moreover have "e * 10 + (11 * n + 9) mod 10 = 11 * n + 9"
    by (simp add: e_def exact_headroom_def)
  ultimately have e: "11 * n \<le> 10 * e" "10 * e \<le> 11 * n + 9" by linarith+
  show "exact_headroom n \<le> headroom n" "headroom n \<le> exact_headroom n + 1"
    using 1 2 3 4 e assms unfolding e_def[symmetric] by simp_all
qed


lemma headroom_20: "headroom 20 = 22"
  by (simp add: headroom_def mul_1_1_def round53_def float_1_1_def math_ceil_def
      bit_length.simps Let_def)

lemma headroom_50: "headroom 50 = 56"
  by (simp add: headroom_def mul_1_1_def round53_def float_1_1_def math_ceil_def
      bit_length.simps Let_def)

lemma headroom_0: "headroom 0 = 0"
  by (simp add: headroom_def mul_1_1_def round53_def float_1_1_def math_ceil_def
      bit_length.simps)

lemma headroom_eq_0: "headroom n = 0 \<longleftrightarrow> n = 0"
  using headroom_ge[of n] headroom_0 by auto

lemma col_max_eq: "col_max ns = (if ns = [] then None else Some (Max (set ns)))"
proof (cases ns)
  case Nil
  then show ?thesis by simp
next
  case (Cons n ns')
  then show ?thesis using Max.set_eq_fold[of n ns'] by simp
qed

lemma set_column: "set (column (dict_lst attributes_lst) k) = observed_lengths attributes_lst k"
proof -
  have cell: "(map_of (map (\<lambda>(k, v). (k, str_len v)) a) k = Some (Some n))
                = (\<exists>s. map_of a k = Some (JStr s) \<and> length s = n)" for a n
    by (cases "map_of a k") (auto simp: map_of_map str_len_def split: json.splits)
  have "set (column (dict_lst attributes_lst) k)
          = {n. \<exists>a \<in> set attributes_lst. map_of (map (\<lambda>(k, v). (k, str_len v)) a) k = Some (Some n)}"
    by (auto simp: column_def dict_lst_def split: option.splits)
  also have "\<dots> = observed_lengths attributes_lst k"
    unfolding cell observed_lengths_def by blast
  finally show ?thesis .
qed

lemma len_dict_eq:
  "len_dict attributes_lst k =
     (if observed_lengths attributes_lst k = {} then None
      else Some (headroom (Max (observed_lengths attributes_lst k))))"
  unfolding len_dict_def col_max_eq set_column[symmetric] by simp

lemma observed_lengths_pair:
  assumes "map_of a1 k = Some (JStr s1)" and "map_of a2 k = Some (JStr s2)"
  shows "observed_lengths [a1, a2] k = {length s1, length s2}"
  using assms by (auto simp: observed_lengths_def)

text \<open>
  Claim C1, as stated, fails on the lower bound: a field whose only string value is
  empty gets the length 0.
\<close>

theorem len_dict_empty_string_counterexample:
  "len_dict [[(''river'', JStr ''Test River''), (''section'', JStr [])]] ''section'' = Some 0"
  by (simp add: len_dict_def dict_lst_def column_def str_len_def headroom_0)

text \<open>
  Claim C1, amended. A field has an entry in the length table exactly when some record
  of the collection holds a string under it, and the entry is
  \<^verbatim>\<open>math.ceil(max * 1.1)\<close> in double precision, for the maximum string
  length of the field over the whole collection. The entry is never below that maximum, and it
  is 0 exactly when every string of the field is empty. For a maximum below \<open>2 ^ 51\<close>
  it is the exact \<open>\<lceil>11 * max / 10\<rceil>\<close> or one more (56 for a maximum of
  50). Two records whose \<open>section\<close> strings have 8 and 20 characters give the
  length 22.
\<close>

theorem len_dict_derivation:
  "len_dict attributes_lst k =
     (if observed_lengths attributes_lst k = {} then None
      else Some (headroom (Max (observed_lengths attributes_lst k))))
   \<and> (\<forall>n. len_dict attributes_lst k = Some n \<longrightarrow>
          Max (observed_lengths attributes_lst k) \<le> n
        \<and> (n = 0) = (Max (observed_lengths attributes_lst k) = 0)
        \<and> (Max (observed_lengths attributes_lst k) < 2 ^ 51 \<longrightarrow>
             exact_headroom (Max (observed_lengths attributes_lst k)) \<le> n
           \<and> n \<le> exact_headroom (Max (observed_lengths attributes_lst k)) + 1))
   \<and> (map_of a1 ''section'' = Some (JStr s1) \<and> length s1 = 8
        \<and> map_of a2 ''section'' = Some (JStr s2) \<and> length s2 = 20
        \<longrightarrow> len_dict [a1, a2] ''section'' = Some 22)
   \<and> headroom 50 = 56 \<and> exact_headroom 50 = 55"
proof (intro conjI allI impI)
  show "len_dict attributes_lst k =
     (if observed_lengths attributes_lst k = {} then None
      else Some (headroom (Max (observed_lengths attributes_lst k))))"
    by (rule len_dict_eq)
next
  fix n assume "len_dict attributes_lst k = Some n"
  then have n: "n = headroom (Max (observed_lengths attributes_lst k))"
    by (simp add: len_dict_eq split: if_splits)
  show "Max (observed_lengths attributes_lst k) \<le> n"
    unfolding n by (rule headroom_ge)
  show "(n = 0) = (Max (observed_lengths attributes_lst k) = 0)"
    unfolding n by (rule headroom_eq_0)
  assume small: "Max (observed_lengths attributes_lst k) < 2 ^ 51"
  show "exact_headroom (Max (observed_lengths attributes_lst k)) \<le> n"
    unfolding n using small by (rule headroom_exact)
  show "n \<le> exact_headroom (Max (observed_lengths attributes_lst k)) + 1"
    unfolding n using small by (rule headroom_exact)
next
  assume "map_of a1 ''section'' = Some (JStr s1) \<and> length s1 = 8
        \<and> map_of a2 ''section'' = Some (JStr s2) \<and> length s2 = 20"
  then have "observed_lengths [a1, a2] ''section'' = {8, 20}"
    using observed_lengths_pair[of a1 "''section''" s1 a2 s2] by simp
  then show "len_dict [a1, a2] ''section'' = Some 22"
    by (simp add: len_dict_eq headroom_20)
next
  show "headroom 50 = 56" by (rule headroom_50)
  show "exact_headroom 50 = 55" by (simp add: exact_headroom_def)
qed

theorem len_dict_derivation_witness:
  "len_dict [[(''section'', JStr ''Gorge 01'')], [(''section'', JStr ''Lower Gorge to Bridge'')],
             [(''section'', JNull)]] ''section'' = Some 24
   \<and> Max (observed_lengths [[(''section'', JStr ''Gorge 01'')],
             [(''section'', JStr ''Lower Gorge to Bridge'')], [(''section'', JNull)]] ''section'') \<le> 24
   \<and> exact_headroom (Max (observed_lengths [[(''section'', JStr ''Gorge 01'')],
             [(''section'', JStr ''Lower Gorge to Bridge'')], [(''section'', JNull)]] ''section'')) \<le> 24
   \<and> len_dict [[(''section'', JStr ''Gorge 01'')], [(''section'', JStr ''Lower Gorge (12 mi.)'')]]
        ''section'' = Some 22"
proof -
  let ?rs = "[[(''section'', JStr ''Gorge 01'')], [(''section'', JStr ''Lower Gorge to Bridge'')],
             [(''section'', JNull)]]"
  note inst = len_dict_derivation[of ?rs "''section''" "[(''section'', JStr ''Gorge 01'')]"
      "''Gorge 01''" "[(''section'', JStr ''Lower Gorge (12 mi.)'')]" "''Lower Gorge (12 mi.)''"]
  have ev: "len_dict ?rs ''section'' = Some 24"
    by (simp add: len_dict_def dict_lst_def column_def str_len_def headroom_def mul_1_1_def
        round53_def float_1_1_def math_ceil_def bit_length.simps Let_def)
  note at = inst[THEN conjunct2, THEN conjunct1, THEN spec, THEN mp, OF ev]
  from at have le: "Max (observed_lengths ?rs ''section'') \<le> 24" by (rule conjunct1)
  then have small: "Max (observed_lengths ?rs ''section'') < 2 ^ 51" by simp
  from at[THEN conjunct2, THEN conjunct2, THEN mp, OF small]
  have ex: "exact_headroom (Max (observed_lengths ?rs ''section'')) \<le> 24" by (rule conjunct1)
  from inst have "len_dict [[(''section'', JStr ''Gorge 01'')],
      [(''section'', JStr ''Lower Gorge (12 mi.)'')]] ''section'' = Some 22" by simp
  with ev le ex show ?thesis by (intro conjI)
qed

text \<open>
  Claim C8. The length table does not depend on the order of the records: two
  collections with the same records, in any order, give the same table.
\<close>

theorem len_dict_permutation:
  assumes "mset attributes_lst = mset attributes_lst'"
  shows "len_dict attributes_lst = len_dict attributes_lst'"
proof
  fix k
  from assms have "set attributes_lst = set attributes_lst'" by (rule mset_eq_setD)
  then have "observed_lengths attributes_lst k = observed_lengths attributes_lst' k"
    by (simp add: observed_lengths_def)
  then show "len_dict attributes_lst k = len_dict attributes_lst' k"
    by (simp add: len_dict_eq)
qed

theorem len_dict_permutation_witness:
  "mset [[(''section'', JStr ''Gorge 01'')], [(''section'', JStr ''Lower Gorge (12 mi.)'')]]
     = mset [[(''section'', JStr ''Lower Gorge (12 mi.)'')], [(''section'', JStr ''Gorge 01'')]]
   \<and> len_dict [[(''section'', JStr ''Gorge 01'')], [(''section'', JStr ''Lower Gorge (12 mi.)'')]]
     = len_dict [[(''section'', JStr ''Lower Gorge (12 mi.)'')], [(''section'', JStr ''Gorge 01'')]]"
proof -
  have p: "mset [[(''section'', JStr ''Gorge 01'')], [(''section'', JStr ''Lower Gorge (12 mi.)'')]]
     = mset [[(''section'', JStr ''Lower Gorge (12 mi.)'')], [(''section'', JStr ''Gorge 01'')]]"
    by (simp add: add_mset_commute)
  from p len_dict_permutation[OF p] show ?thesis by (rule conjI)
qed


section \<open>The field list: proofs\<close>

lemma filter_update_other:
  "filter (\<lambda>p. fst p \<noteq> k) (AList.update k v al) = filter (\<lambda>p. fst p \<noteq> k) al"
  by (induction al) auto

lemma add_fld_meta_cases:
  assumes "add_fld_meta ld fld = Inr fld'"
  shows "(\<exists>nm. map_of fld ''name'' = Some nm \<and> len_dict_get ld nm = Inr None \<and> fld' = fld)
       \<or> (\<exists>nm l. map_of fld ''name'' = Some nm \<and> len_dict_get ld nm = Inr (Some l)
             \<and> fld' = AList.update ''length'' (JInt (int l)) fld)"
  using assms
  by (auto simp: add_fld_meta_def dict_item_def split: option.splits sum.splits)

lemma add_fld_meta_other:
  assumes "add_fld_meta ld fld = Inr fld'" and "key \<noteq> ''length''"
  shows "map_of fld' key = map_of fld key"
  using add_fld_meta_cases[OF assms(1)] assms(2) by (auto simp: update_conv')

lemma len_dict_get_str: "len_dict_get ld (JStr n) = Inr (ld n)"
  by (simp add: len_dict_get_def)

lemma len_dict_get_Some:
  assumes "len_dict_get ld nm = Inr (Some l)"
  shows "\<exists>n. nm = JStr n \<and> ld n = Some l"
  using assms by (cases nm) (simp_all add: len_dict_get_def)

text \<open>
  Claim C9. When \<open>add_fld_meta\<close> returns, the field description it returns agrees
  with its argument on every key other than \<open>length\<close>, and the entries under the
  other keys keep their order; \<open>length\<close> is set to the derived length when the table
  has one for the field's name; and a field for which the table has no length is
  returned unchanged.
\<close>

theorem add_fld_meta_frame:
  assumes "add_fld_meta ld fld = Inr fld'"
  shows "(\<forall>key. key \<noteq> ''length'' \<longrightarrow> map_of fld' key = map_of fld key)
       \<and> map_of fld' ''name'' = map_of fld ''name''
       \<and> map_of fld' ''type'' = map_of fld ''type''
       \<and> map_of fld' ''alias'' = map_of fld ''alias''
       \<and> map_of fld' ''nullable'' = map_of fld ''nullable''
       \<and> map_of fld' ''editable'' = map_of fld ''editable''
       \<and> filter (\<lambda>p. fst p \<noteq> ''length'') fld' = filter (\<lambda>p. fst p \<noteq> ''length'') fld
       \<and> (\<forall>n l. map_of fld ''name'' = Some (JStr n) \<and> ld n = Some l
             \<longrightarrow> map_of fld' ''length'' = Some (JInt (int l)))
       \<and> ((\<forall>n. map_of fld ''name'' = Some (JStr n) \<longrightarrow> ld n = None) \<longrightarrow> fld' = fld)"
proof -
  have other: "map_of fld' key = map_of fld key" if "key \<noteq> ''length''" for key
    using assms that by (rule add_fld_meta_other)
  have ord: "filter (\<lambda>p. fst p \<noteq> ''length'') fld' = filter (\<lambda>p. fst p \<noteq> ''length'') fld"
    using add_fld_meta_cases[OF assms] by (auto simp: filter_update_other)
  have len: "map_of fld' ''length'' = Some (JInt (int l))"
    if "map_of fld ''name'' = Some (JStr n)" "ld n = Some l" for n l
    using add_fld_meta_cases[OF assms] that by (auto simp: len_dict_get_str update_conv')
  have same: "fld' = fld" if none: "\<forall>n. map_of fld ''name'' = Some (JStr n) \<longrightarrow> ld n = None"
  proof (rule ccontr)
    assume "fld' \<noteq> fld"
    with add_fld_meta_cases[OF assms] obtain nm l
      where nm: "map_of fld ''name'' = Some nm" and l: "len_dict_get ld nm = Inr (Some l)"
      by blast
    from len_dict_get_Some[OF l] obtain n where "nm = JStr n" "ld n = Some l" by blast
    with nm none show False by simp
  qed
  show ?thesis
  proof (intro conjI allI impI)
    fix n l assume "map_of fld ''name'' = Some (JStr n) \<and> ld n = Some l"
    then show "map_of fld' ''length'' = Some (JInt (int l))" using len by blast
  qed (simp_all add: other ord same)
qed

theorem add_fld_meta_frame_witness:
  "add_fld_meta [''section'' \<mapsto> 22]
      [(''name'', JStr ''section''), (''type'', JStr ''esriFieldTypeString''),
       (''alias'', JStr ''section''), (''nullable'', JBool True), (''editable'', JBool True)]
    = Inr [(''name'', JStr ''section''), (''type'', JStr ''esriFieldTypeString''),
       (''alias'', JStr ''section''), (''nullable'', JBool True), (''editable'', JBool True),
       (''length'', JInt 22)]
   \<and> map_of [(''name'', JStr ''section''), (''type'', JStr ''esriFieldTypeString''),
       (''alias'', JStr ''section''), (''nullable'', JBool True), (''editable'', JBool True),
       (''length'', JInt 22)] ''length'' = Some (JInt 22)
   \<and> add_fld_meta [''section'' \<mapsto> 22]
      [(''name'', JStr ''reach_id''), (''type'', JStr ''esriFieldTypeInteger'')]
    = Inr [(''name'', JStr ''reach_id''), (''type'', JStr ''esriFieldTypeInteger'')]"
proof -
  let ?ld = "[''section'' \<mapsto> 22::nat]"
  let ?f = "[(''name'', JStr ''section''), (''type'', JStr ''esriFieldTypeString''),
       (''alias'', JStr ''section''), (''nullable'', JBool True), (''editable'', JBool True)]"
  let ?g = "[(''name'', JStr ''reach_id''), (''type'', JStr ''esriFieldTypeInteger'')]"
  have f: "add_fld_meta ?ld ?f = Inr (?f @ [(''length'', JInt 22)])"
    by (simp add: add_fld_meta_def dict_item_def len_dict_get_def)
  have g: "add_fld_meta ?ld ?g = Inr ?g"
    by (simp add: add_fld_meta_def dict_item_def len_dict_get_def)
  from add_fld_meta_frame[OF f]
  have "map_of (?f @ [(''length'', JInt 22)]) ''length'' = Some (JInt (int 22))"
    by simp
  moreover from add_fld_meta_frame[OF g] have "?g = ?g" by simp
  ultimately show ?thesis using f g by simp
qed






section \<open>The extraction cells: proofs\<close>

lemma run_append:
  "run (a @ b) ns = (case run a ns of (None, ns') \<Rightarrow> run b ns' | (Some e, ns') \<Rightarrow> (Some e, ns'))"
  by (induction a arbitrary: ns) (auto split: sum.splits)

lemma json_info_error: "json_info doc = Inl e \<Longrightarrow> e = AttributeError"
  by (cases doc) (auto simp: json_info_def then_get_def split: sum.splits elim!: py_get.elims)

lemma run_info_cell:
  "run (info_cell doc) ns =
     (case json_info doc of
        Inl e \<Rightarrow> (Some e, ns(''aw_json'' \<mapsto> doc))
      | Inr (JObj d) \<Rightarrow>
          (None, ns(''aw_json'' \<mapsto> doc, ''json_info'' \<mapsto> JObj d,
                    ''reach_id'' \<mapsto> dict_get d ''id'', ''river'' \<mapsto> dict_get d ''river'',
                    ''name'' \<mapsto> dict_get d ''section'',
                    ''description'' \<mapsto> dict_get d ''description_md''))
      | Inr info \<Rightarrow> (Some AttributeError, ns(''aw_json'' \<mapsto> doc, ''json_info'' \<mapsto> info)))"
  by (simp add: info_cell_def assign_def var_def then_get_def split: sum.splits json.splits)

lemma run_geojson_cell:
  "ns ''json_info'' = Some (JObj d) \<Longrightarrow>
     run geojson_cell ns = (None, ns(''geojson'' \<mapsto> dict_get d ''geom''))"
  by (simp add: geojson_cell_def assign_def var_def then_get_def)

lemma run_geometry_cell:
  "ns ''geojson'' = Some g \<Longrightarrow>
     run (geometry_cell Geometry) ns =
       (case Geometry g of Inl e \<Rightarrow> (Some e, ns) | Inr v \<Rightarrow> (None, ns(''geometry'' \<mapsto> v)))"
  by (simp add: geometry_cell_def assign_def var_def split: sum.splits)

lemma run_info_geojson:
  assumes "json_info doc = Inr (JObj d)"
  shows "run (info_cell doc @ geojson_cell) ns =
          (None, ns(''aw_json'' \<mapsto> doc, ''json_info'' \<mapsto> JObj d,
                    ''reach_id'' \<mapsto> dict_get d ''id'', ''river'' \<mapsto> dict_get d ''river'',
                    ''name'' \<mapsto> dict_get d ''section'',
                    ''description'' \<mapsto> dict_get d ''description_md'',
                    ''geojson'' \<mapsto> dict_get d ''geom''))"
  using assms by (simp add: run_append run_info_cell run_geojson_cell)

lemma run_extract_ok:
  assumes "json_info doc = Inr (JObj d)"
  shows "run (extract_cells Geometry doc) ns =
          (case Geometry (dict_get d ''geom'') of
             Inl e \<Rightarrow>
               (Some e, ns(''aw_json'' \<mapsto> doc, ''json_info'' \<mapsto> JObj d,
                    ''reach_id'' \<mapsto> dict_get d ''id'', ''river'' \<mapsto> dict_get d ''river'',
                    ''name'' \<mapsto> dict_get d ''section'',
                    ''description'' \<mapsto> dict_get d ''description_md'',
                    ''geojson'' \<mapsto> dict_get d ''geom''))
           | Inr v \<Rightarrow>
               (None, ns(''aw_json'' \<mapsto> doc, ''json_info'' \<mapsto> JObj d,
                    ''reach_id'' \<mapsto> dict_get d ''id'', ''river'' \<mapsto> dict_get d ''river'',
                    ''name'' \<mapsto> dict_get d ''section'',
                    ''description'' \<mapsto> dict_get d ''description_md'',
                    ''geojson'' \<mapsto> dict_get d ''geom'', ''geometry'' \<mapsto> v)))"
proof -
  have "run (extract_cells Geometry doc) ns =
          (case run (info_cell doc @ geojson_cell) ns of
             (None, ns') \<Rightarrow> run (geometry_cell Geometry) ns'
           | (Some e, ns') \<Rightarrow> (Some e, ns'))"
    unfolding extract_cells_def append_assoc[symmetric] by (rule run_append)
  then show ?thesis
    by (simp add: run_info_geojson[OF assms] run_geometry_cell)
qed

lemma run_extract_bad:
  assumes "\<forall>d. json_info doc \<noteq> Inr (JObj d)"
  shows "fst (run (extract_cells Geometry doc) ns) = Some AttributeError"
    and "x \<noteq> ''aw_json'' \<Longrightarrow> x \<noteq> ''json_info'' \<Longrightarrow>
           snd (run (extract_cells Geometry doc) ns) x = ns x"
    and "snd (run (extract_cells Geometry doc) ns) ''aw_json'' = Some doc"
    and "json_info doc = Inl e \<Longrightarrow> snd (run (extract_cells Geometry doc) ns) ''json_info'' = ns ''json_info''"
    and "json_info doc = Inr info \<Longrightarrow> snd (run (extract_cells Geometry doc) ns) ''json_info'' = Some info"
proof -
  have 1: "run (extract_cells Geometry doc) ns = run (info_cell doc) ns"
    using assms
    by (auto simp: extract_cells_def run_append run_info_cell split: sum.splits json.splits)
  show "fst (run (extract_cells Geometry doc) ns) = Some AttributeError"
    unfolding 1 using assms json_info_error[of doc]
    by (auto simp: run_info_cell split: sum.splits json.splits)
  show "snd (run (extract_cells Geometry doc) ns) x = ns x"
    if "x \<noteq> ''aw_json''" "x \<noteq> ''json_info''"
    unfolding 1 using assms that by (auto simp: run_info_cell split: sum.splits json.splits)
  show "snd (run (extract_cells Geometry doc) ns) ''aw_json'' = Some doc"
    unfolding 1 using assms by (auto simp: run_info_cell split: sum.splits json.splits)
  show "snd (run (extract_cells Geometry doc) ns) ''json_info'' = ns ''json_info''"
    if "json_info doc = Inl e"
    unfolding 1 using that by (simp add: run_info_cell)
  show "snd (run (extract_cells Geometry doc) ns) ''json_info'' = Some info"
    if "json_info doc = Inr info"
    unfolding 1 using assms that by (auto simp: run_info_cell split: json.splits)
qed

lemma dict_get_absent: "map_of d k = None \<Longrightarrow> dict_get d k = JNull"
  by (simp add: dict_get_def)

lemma dict_get_present: "map_of d k = Some v \<Longrightarrow> dict_get d k = v"
  by (simp add: dict_get_def)

lemma run_info_cell_ok:
  assumes "json_info doc = Inr (JObj d)"
  shows "run (info_cell doc) ns =
          (None, ns(''aw_json'' \<mapsto> doc, ''json_info'' \<mapsto> JObj d,
                    ''reach_id'' \<mapsto> dict_get d ''id'', ''river'' \<mapsto> dict_get d ''river'',
                    ''name'' \<mapsto> dict_get d ''section'',
                    ''description'' \<mapsto> dict_get d ''description_md''))"
  using assms by (simp add: run_info_cell)

text \<open>
  Claim C5. Whenever the info block of the document is a mapping, the cell that reads
  the descriptive fields succeeds, whether the block has the keys \<open>id\<close>, \<open>river\<close>,
  \<open>section\<close> and \<open>description_md\<close> or not, and binds \<open>reach_id\<close>, \<open>river\<close>,
  \<open>name\<close> and \<open>description\<close>. The attribute mapping of these four values has
  the keys \<open>reach_id\<close>, \<open>river\<close>, \<open>section\<close> and \<open>description\<close>; a field the
  block has is passed through unchanged, and a field the block lacks is there with the
  value \<^verbatim>\<open>None\<close>. Two documents whose info blocks are mappings give attribute
  mappings with the same keys, whatever fields either of them lacks.
\<close>

theorem info_cell_attributes:
  "(\<forall>d. json_info doc = Inr (JObj d) \<longrightarrow>
      (\<exists>ns' a. run (info_cell doc) ns = (None, ns')
         \<and> a = attributes (dict_get d ''id'') (dict_get d ''river'') (dict_get d ''section'')
                 (dict_get d ''description_md'')
         \<and> ns' ''reach_id'' = map_of a ''reach_id''
         \<and> ns' ''river'' = map_of a ''river''
         \<and> ns' ''name'' = map_of a ''section''
         \<and> ns' ''description'' = map_of a ''description''
         \<and> map fst a = [''reach_id'', ''river'', ''section'', ''description'']
         \<and> (map_of d ''id'' = None \<longrightarrow> map_of a ''reach_id'' = Some JNull)
         \<and> (map_of d ''river'' = None \<longrightarrow> map_of a ''river'' = Some JNull)
         \<and> (map_of d ''section'' = None \<longrightarrow> map_of a ''section'' = Some JNull)
         \<and> (map_of d ''description_md'' = None \<longrightarrow> map_of a ''description'' = Some JNull)
         \<and> (\<forall>v. map_of d ''id'' = Some v \<longrightarrow> map_of a ''reach_id'' = Some v)
         \<and> (\<forall>v. map_of d ''river'' = Some v \<longrightarrow> map_of a ''river'' = Some v)
         \<and> (\<forall>v. map_of d ''section'' = Some v \<longrightarrow> map_of a ''section'' = Some v)
         \<and> (\<forall>v. map_of d ''description_md'' = Some v \<longrightarrow> map_of a ''description'' = Some v)))
   \<and> (\<forall>d1 d2. json_info doc1 = Inr (JObj d1) \<and> json_info doc2 = Inr (JObj d2) \<longrightarrow>
        (\<exists>n1 n2. run (info_cell doc1) ns = (None, n1) \<and> run (info_cell doc2) ns = (None, n2)
           \<and> dom n1 = dom n2)
        \<and> map fst (attributes (dict_get d1 ''id'') (dict_get d1 ''river'') (dict_get d1 ''section'')
                     (dict_get d1 ''description_md''))
          = map fst (attributes (dict_get d2 ''id'') (dict_get d2 ''river'') (dict_get d2 ''section'')
                     (dict_get d2 ''description_md'')))"
proof (intro conjI allI impI)
  fix d assume d: "json_info doc = Inr (JObj d)"
  let ?a = "attributes (dict_get d ''id'') (dict_get d ''river'') (dict_get d ''section'')
                 (dict_get d ''description_md'')"
  let ?ns' = "ns(''aw_json'' \<mapsto> doc, ''json_info'' \<mapsto> JObj d,
                    ''reach_id'' \<mapsto> dict_get d ''id'', ''river'' \<mapsto> dict_get d ''river'',
                    ''name'' \<mapsto> dict_get d ''section'',
                    ''description'' \<mapsto> dict_get d ''description_md'')"
  have run: "run (info_cell doc) ns = (None, ?ns')" using d by (rule run_info_cell_ok)
  have binds: "?ns' ''reach_id'' = map_of ?a ''reach_id''" "?ns' ''river'' = map_of ?a ''river''"
    "?ns' ''name'' = map_of ?a ''section''" "?ns' ''description'' = map_of ?a ''description''"
    by (simp_all add: attributes_def)
  have keys: "map fst ?a = [''reach_id'', ''river'', ''section'', ''description'']"
    by (simp add: attributes_def)
  have absent: "map_of d ''id'' = None \<longrightarrow> map_of ?a ''reach_id'' = Some JNull"
    "map_of d ''river'' = None \<longrightarrow> map_of ?a ''river'' = Some JNull"
    "map_of d ''section'' = None \<longrightarrow> map_of ?a ''section'' = Some JNull"
    "map_of d ''description_md'' = None \<longrightarrow> map_of ?a ''description'' = Some JNull"
    by (simp_all add: attributes_def dict_get_absent)
  have present: "\<forall>v. map_of d ''id'' = Some v \<longrightarrow> map_of ?a ''reach_id'' = Some v"
    "\<forall>v. map_of d ''river'' = Some v \<longrightarrow> map_of ?a ''river'' = Some v"
    "\<forall>v. map_of d ''section'' = Some v \<longrightarrow> map_of ?a ''section'' = Some v"
    "\<forall>v. map_of d ''description_md'' = Some v \<longrightarrow> map_of ?a ''description'' = Some v"
    by (simp_all add: attributes_def dict_get_present)
  show "\<exists>ns' a. run (info_cell doc) ns = (None, ns')
         \<and> a = attributes (dict_get d ''id'') (dict_get d ''river'') (dict_get d ''section'')
                 (dict_get d ''description_md'')
         \<and> ns' ''reach_id'' = map_of a ''reach_id''
         \<and> ns' ''river'' = map_of a ''river''
         \<and> ns' ''name'' = map_of a ''section''
         \<and> ns' ''description'' = map_of a ''description''
         \<and> map fst a = [''reach_id'', ''river'', ''section'', ''description'']
         \<and> (map_of d ''id'' = None \<longrightarrow> map_of a ''reach_id'' = Some JNull)
         \<and> (map_of d ''river'' = None \<longrightarrow> map_of a ''river'' = Some JNull)
         \<and> (map_of d ''section'' = None \<longrightarrow> map_of a ''section'' = Some JNull)
         \<and> (map_of d ''description_md'' = None \<longrightarrow> map_of a ''description'' = Some JNull)
         \<and> (\<forall>v. map_of d ''id'' = Some v \<longrightarrow> map_of a ''reach_id'' = Some v)
         \<and> (\<forall>v. map_of d ''river'' = Some v \<longrightarrow> map_of a ''river'' = Some v)
         \<and> (\<forall>v. map_of d ''section'' = Some v \<longrightarrow> map_of a ''section'' = Some v)
         \<and> (\<forall>v. map_of d ''description_md'' = Some v \<longrightarrow> map_of a ''description'' = Some v)"
    by (rule exI[of _ ?ns'], rule exI[of _ ?a])
      (intro conjI run refl binds keys absent present)
next
  fix d1 d2
  assume both: "json_info doc1 = Inr (JObj d1) \<and> json_info doc2 = Inr (JObj d2)"
  let ?n1 = "ns(''aw_json'' \<mapsto> doc1, ''json_info'' \<mapsto> JObj d1,
                    ''reach_id'' \<mapsto> dict_get d1 ''id'', ''river'' \<mapsto> dict_get d1 ''river'',
                    ''name'' \<mapsto> dict_get d1 ''section'',
                    ''description'' \<mapsto> dict_get d1 ''description_md'')"
  let ?n2 = "ns(''aw_json'' \<mapsto> doc2, ''json_info'' \<mapsto> JObj d2,
                    ''reach_id'' \<mapsto> dict_get d2 ''id'', ''river'' \<mapsto> dict_get d2 ''river'',
                    ''name'' \<mapsto> dict_get d2 ''section'',
                    ''description'' \<mapsto> dict_get d2 ''description_md'')"
  have r1: "run (info_cell doc1) ns = (None, ?n1)"
    using both[THEN conjunct1] by (rule run_info_cell_ok)
  have r2: "run (info_cell doc2) ns = (None, ?n2)"
    using both[THEN conjunct2] by (rule run_info_cell_ok)
  have dom: "dom ?n1 = dom ?n2" by simp
  show "\<exists>n1 n2. run (info_cell doc1) ns = (None, n1) \<and> run (info_cell doc2) ns = (None, n2)
           \<and> dom n1 = dom n2"
    by (rule exI[of _ ?n1], rule exI[of _ ?n2]) (intro conjI r1 r2 dom)
  show "map fst (attributes (dict_get d1 ''id'') (dict_get d1 ''river'') (dict_get d1 ''section'')
                     (dict_get d1 ''description_md''))
          = map fst (attributes (dict_get d2 ''id'') (dict_get d2 ''river'') (dict_get d2 ''section'')
                     (dict_get d2 ''description_md''))"
    by (simp add: attributes_def)
qed

theorem info_cell_attributes_witness:
  "(\<exists>n. run (info_cell (JObj [(''CContainerViewJSON_view'', JObj
          [(''CRiverMainGadgetJSON_main'', JObj [(''info'', JObj
             [(''id'', JInt 42), (''river'', JStr ''Test River''),
              (''section'', JStr ''Lower Gorge'')])])])])) Map.empty = (None, n)
      \<and> n ''description'' = Some JNull
      \<and> n ''river'' = Some (JStr ''Test River''))
   \<and> map fst (attributes (JInt 42) (JStr ''Test River'') (JStr ''Lower Gorge'') JNull)
       = map fst (attributes (JInt 42) (JStr ''Test River'') (JStr ''Lower Gorge'')
                    (JStr ''A short run.''))"
proof -
  let ?d = "[(''id'', JInt 42), (''river'', JStr ''Test River''),
              (''section'', JStr ''Lower Gorge'')]"
  let ?d' = "[(''id'', JInt 42), (''river'', JStr ''Test River''),
              (''section'', JStr ''Lower Gorge''), (''description_md'', JStr ''A short run.'')]"
  let ?doc = "JObj [(''CContainerViewJSON_view'', JObj
          [(''CRiverMainGadgetJSON_main'', JObj [(''info'', JObj ?d)])])]"
  let ?doc' = "JObj [(''CContainerViewJSON_view'', JObj
          [(''CRiverMainGadgetJSON_main'', JObj [(''info'', JObj ?d')])])]"
  have ji: "json_info ?doc = Inr (JObj ?d)"
    by (simp add: json_info_def then_get_def dict_get_def)
  have ji': "json_info ?doc' = Inr (JObj ?d')"
    by (simp add: json_info_def then_get_def dict_get_def)
  have no_descr: "map_of ?d ''description_md'' = None" by simp
  have river: "map_of ?d ''river'' = Some (JStr ''Test River'')" by simp
  from info_cell_attributes[of ?doc Map.empty, THEN conjunct1, THEN spec, THEN mp, OF ji]
  obtain n a where n: "run (info_cell ?doc) Map.empty = (None, n)"
    and nr: "n ''river'' = map_of a ''river''"
    and nd: "n ''description'' = map_of a ''description''"
    and ad: "map_of ?d ''description_md'' = None \<longrightarrow> map_of a ''description'' = Some JNull"
    and ar: "\<forall>v. map_of ?d ''river'' = Some v \<longrightarrow> map_of a ''river'' = Some v"
    by (elim exE conjE) (rule that)
  from ad no_descr nd have 1: "n ''description'' = Some JNull" by simp
  from ar river nr have 2: "n ''river'' = Some (JStr ''Test River'')" by simp
  from n 1 2 have first: "\<exists>n. run (info_cell ?doc) Map.empty = (None, n)
      \<and> n ''description'' = Some JNull \<and> n ''river'' = Some (JStr ''Test River'')"
    by (intro exI[of _ n] conjI)
  from info_cell_attributes[of _ Map.empty ?doc ?doc', THEN conjunct2, THEN spec, THEN spec,
      THEN mp, OF conjI[OF ji ji'], THEN conjunct2]
  have "map fst (attributes (JInt 42) (JStr ''Test River'') (JStr ''Lower Gorge'') JNull)
       = map fst (attributes (JInt 42) (JStr ''Test River'') (JStr ''Lower Gorge'')
                    (JStr ''A short run.''))"
    by (simp add: dict_get_def)
  with first show ?thesis by (rule conjI)
qed

text \<open>
  Claim C6, as stated, fails: a document whose info block has neither an identifier nor
  a geometry block is read without an exception, and \<open>reach_id\<close> and \<open>geojson\<close>
  are bound to \<^verbatim>\<open>None\<close>.
\<close>

theorem info_cell_missing_id_counterexample:
  "fst (run (info_cell (JObj [(''CContainerViewJSON_view'', JObj
          [(''CRiverMainGadgetJSON_main'', JObj [(''info'', JObj
             [(''river'', JStr ''Test River''), (''section'', JStr ''Lower Gorge'')])])])])
         @ geojson_cell) Map.empty) = None
   \<and> snd (run (info_cell (JObj [(''CContainerViewJSON_view'', JObj
          [(''CRiverMainGadgetJSON_main'', JObj [(''info'', JObj
             [(''river'', JStr ''Test River''), (''section'', JStr ''Lower Gorge'')])])])])
         @ geojson_cell) Map.empty) ''reach_id'' = Some JNull
   \<and> snd (run (info_cell (JObj [(''CContainerViewJSON_view'', JObj
          [(''CRiverMainGadgetJSON_main'', JObj [(''info'', JObj
             [(''river'', JStr ''Test River''), (''section'', JStr ''Lower Gorge'')])])])])
         @ geojson_cell) Map.empty) ''geojson'' = Some JNull"
  by (simp add: info_cell_def geojson_cell_def assign_def var_def then_get_def json_info_def
      dict_get_def)

text \<open>
  Claim C6, amended. When the path to the info block does not end in a mapping (the
  document or a container on the path is not a mapping, or the info block is absent or
  not a mapping), the cells stop with \<^verbatim>\<open>AttributeError\<close> and none of the names that
  hold the record's values is bound or changed. When the info block is a mapping, the
  fields and the geometry block are read without an exception, an absent identifier or
  geometry block gives \<^verbatim>\<open>None\<close>, and the run fails only if the library's geometry
  constructor does.
\<close>

theorem extract_cells_malformed:
  "((\<forall>d. json_info doc \<noteq> Inr (JObj d)) \<longrightarrow>
       fst (run (extract_cells Geometry doc) ns) = Some AttributeError
     \<and> (\<forall>x \<in> record_names. snd (run (extract_cells Geometry doc) ns) x = ns x))
   \<and> (\<forall>d. json_info doc = Inr (JObj d) \<longrightarrow>
       fst (run (info_cell doc @ geojson_cell) ns) = None
     \<and> snd (run (info_cell doc @ geojson_cell) ns) ''reach_id'' = Some (dict_get d ''id'')
     \<and> snd (run (info_cell doc @ geojson_cell) ns) ''geojson'' = Some (dict_get d ''geom'')
     \<and> (map_of d ''id'' = None \<longrightarrow>
           snd (run (info_cell doc @ geojson_cell) ns) ''reach_id'' = Some JNull)
     \<and> (map_of d ''geom'' = None \<longrightarrow>
           snd (run (info_cell doc @ geojson_cell) ns) ''geojson'' = Some JNull)
     \<and> fst (run (extract_cells Geometry doc) ns)
          = (case Geometry (dict_get d ''geom'') of Inl e \<Rightarrow> Some e | Inr g \<Rightarrow> None))"
proof (intro conjI allI impI ballI)
  assume bad: "\<forall>d. json_info doc \<noteq> Inr (JObj d)"
  show "fst (run (extract_cells Geometry doc) ns) = Some AttributeError"
    using bad by (rule run_extract_bad(1))
  fix x assume "x \<in> record_names"
  then have "x \<noteq> ''aw_json''" "x \<noteq> ''json_info''" by (auto simp: record_names_def)
  then show "snd (run (extract_cells Geometry doc) ns) x = ns x"
    using run_extract_bad(2)[OF bad] by blast
next
  fix d assume d: "json_info doc = Inr (JObj d)"
  show "fst (run (info_cell doc @ geojson_cell) ns) = None"
    "snd (run (info_cell doc @ geojson_cell) ns) ''reach_id'' = Some (dict_get d ''id'')"
    "snd (run (info_cell doc @ geojson_cell) ns) ''geojson'' = Some (dict_get d ''geom'')"
    by (simp_all add: run_info_geojson[OF d])
  show "snd (run (info_cell doc @ geojson_cell) ns) ''reach_id'' = Some JNull"
    if "map_of d ''id'' = None"
    using that by (simp add: run_info_geojson[OF d] dict_get_def)
  show "snd (run (info_cell doc @ geojson_cell) ns) ''geojson'' = Some JNull"
    if "map_of d ''geom'' = None"
    using that by (simp add: run_info_geojson[OF d] dict_get_def)
  show "fst (run (extract_cells Geometry doc) ns)
          = (case Geometry (dict_get d ''geom'') of Inl e \<Rightarrow> Some e | Inr g \<Rightarrow> None)"
    by (simp add: run_extract_ok[OF d] split: sum.splits)
qed

theorem extract_cells_malformed_witness:
  "fst (run (extract_cells Inr (JObj [(''CContainerViewJSON_view'', JObj
          [(''CRiverMainGadgetJSON_main'', JObj [])])])) [''river'' \<mapsto> JStr ''Old'']) = Some AttributeError
   \<and> snd (run (extract_cells Inr (JObj [(''CContainerViewJSON_view'', JObj
          [(''CRiverMainGadgetJSON_main'', JObj [])])])) [''river'' \<mapsto> JStr ''Old'']) ''river''
        = Some (JStr ''Old'')
   \<and> snd (run (info_cell (JObj [(''CContainerViewJSON_view'', JObj
          [(''CRiverMainGadgetJSON_main'', JObj [(''info'', JObj
             [(''river'', JStr ''Test River'')])])])]) @ geojson_cell) Map.empty) ''reach_id''
        = Some JNull"
proof -
  let ?bad = "JObj [(''CContainerViewJSON_view'', JObj [(''CRiverMainGadgetJSON_main'', JObj [])])]"
  let ?ok = "JObj [(''CContainerViewJSON_view'', JObj
          [(''CRiverMainGadgetJSON_main'', JObj [(''info'', JObj
             [(''river'', JStr ''Test River'')])])])]"
  let ?ns = "[''river'' \<mapsto> JStr ''Old'']"
  have bad: "\<forall>d. json_info ?bad \<noteq> Inr (JObj d)"
    by (simp add: json_info_def then_get_def dict_get_def)
  have x: "''river'' \<in> record_names" by (simp add: record_names_def)
  note first = extract_cells_malformed[of ?bad Inr ?ns, THEN conjunct1, THEN mp, OF bad]
  from first have 1: "fst (run (extract_cells Inr ?bad) ?ns) = Some AttributeError"
    by (rule conjunct1)
  from first have 2: "\<forall>x \<in> record_names. snd (run (extract_cells Inr ?bad) ?ns) x = ?ns x"
    by (rule conjunct2)
  from 2 x have 3: "snd (run (extract_cells Inr ?bad) ?ns) ''river'' = Some (JStr ''Old'')"
    by simp
  have ok: "json_info ?ok = Inr (JObj [(''river'', JStr ''Test River'')])"
    by (simp add: json_info_def then_get_def dict_get_def)
  have none: "map_of [(''river'', JStr ''Test River'')] ''id'' = None" by simp
  note second = extract_cells_malformed[of ?ok Inr Map.empty, THEN conjunct2, THEN spec,
      THEN mp, OF ok]
  from second[THEN conjunct2, THEN conjunct2, THEN conjunct2, THEN conjunct1, THEN mp, OF none]
  have 4: "snd (run (info_cell ?ok @ geojson_cell) Map.empty) ''reach_id'' = Some JNull" .
  from 1 3 4 show ?thesis by (intro conjI)
qed

end
